theory Spec2Isabelle
  imports Main "HOL-Library.AList" "HOL-Library.Multiset"
    "HOL-Library.Char_ord" "HOL-Library.List_Lexorder"
begin

section \<open>Python values used by agdb.py\<close>

text \<open>
  The exceptions that the code of \<^verbatim>\<open>agdb.py\<close> can raise.  The scraper defines no
  exception class of its own: every failure is one of Python's built-in exceptions or an
  exception of the HTTP client (\<open>RequestException\<close>, which stands for everything
  \<^verbatim>\<open>requests.get\<close> and \<^verbatim>\<open>raise_for_status\<close> raise).
\<close>

datatype py_error =
    AttributeError
  | IndexError
  | KeyError
  | TypeError
  | ValueError
  | RuntimeError
  | FileNotFoundError
  | RequestException
  | KeyboardInterrupt

text \<open>
  A Python \<^verbatim>\<open>dict\<close> from strings to strings, in insertion order.  Looking a key up is
  \<^const>\<open>map_of\<close>; \<^verbatim>\<open>d[k] = v\<close> replaces the value of a key that is present, in place,
  and appends a key that is new.
\<close>

type_synonym dict = "(string \<times> string) list"

definition dict_setitem :: "string \<Rightarrow> string \<Rightarrow> dict \<Rightarrow> dict" where
  "dict_setitem k v d = AList.update k v d"

definition dict_contains :: "string \<Rightarrow> dict \<Rightarrow> bool" where
  "dict_contains k d = (map_of d k \<noteq> None)"

definition dict_keys :: "dict \<Rightarrow> string list" where
  "dict_keys d = map fst d"

text \<open>
  \<^verbatim>\<open>d.update(other)\<close> is, in the words of Python's documentation,
  \<^verbatim>\<open>for k in other: d[k] = other[k]\<close>.
\<close>

fun update_loop :: "dict \<Rightarrow> string list \<Rightarrow> dict \<Rightarrow> dict" where
  "update_loop other [] d = d"
| "update_loop other (k # ks) d =
     (case map_of other k of
        None \<Rightarrow> update_loop other ks d
      | Some v \<Rightarrow> update_loop other ks (dict_setitem k v d))"

definition dict_update :: "dict \<Rightarrow> dict \<Rightarrow> dict" where
  "dict_update d other = update_loop other (dict_keys other) d"

text \<open>
  Equality of two dicts is equality of their contents, whatever the order of the keys.
\<close>

definition dict_eq :: "dict \<Rightarrow> dict \<Rightarrow> bool" where
  "dict_eq a b = (\<forall>k \<in> set (dict_keys a) \<union> set (dict_keys b). map_of a k = map_of b k)"

section \<open>class game\<close>

text \<open>
  \<^verbatim>\<open>game.__init__\<close> stores the identifier and the URL of the detail page and starts
  with an empty \<^verbatim>\<open>info\<close>.  The field \<^verbatim>\<open>id\<close> is called \<open>game_id\<close> here.
\<close>

record game =
  game_id :: string
  db_url :: string
  info :: dict

definition new_game :: "string \<Rightarrow> string \<Rightarrow> game" where
  "new_game i u = \<lparr>game_id = i, db_url = u, info = []\<rparr>"

text \<open>
  \<^verbatim>\<open>game.to_dict\<close>: the dict \<^verbatim>\<open>{"id": self.id, "db_url": self.db_url}\<close>, updated
  with \<^verbatim>\<open>self.info\<close>.
\<close>

definition to_dict :: "game \<Rightarrow> dict" where
  "to_dict g = dict_update [(''id'', game_id g), (''db_url'', db_url g)] (info g)"

text \<open>
  \<^verbatim>\<open>game.diff\<close> takes a stored record or another \<^verbatim>\<open>game\<close>, whose \<^verbatim>\<open>info\<close> it
  then reads.  The loop \<^verbatim>\<open>for k in new\<close> runs over the keys of the new record in
  order; \<^verbatim>\<open>new[k]\<close> raises \<open>KeyError\<close> on a missing key.
\<close>

datatype json_or_instance = Json dict | Instance game

fun diff_loop :: "dict \<Rightarrow> dict \<Rightarrow> string list \<Rightarrow> dict \<Rightarrow> py_error + dict" where
  "diff_loop new old [] d = Inr d"
| "diff_loop new old (k # ks) d =
     (case map_of new k of
        None \<Rightarrow> Inl KeyError
      | Some v \<Rightarrow>
          if \<not> dict_contains k old \<or> Some v \<noteq> map_of old k
          then diff_loop new old ks (dict_setitem k v d)
          else diff_loop new old ks d)"

definition prior_record :: "json_or_instance \<Rightarrow> dict" where
  "prior_record p = (case p of Instance other \<Rightarrow> info other | Json j \<Rightarrow> j)"

definition diff :: "game \<Rightarrow> json_or_instance \<Rightarrow> py_error + dict" where
  "diff g json_or_instance =
     (if info g = [] then Inl RuntimeError
      else
        let old = prior_record json_or_instance;
            new = to_dict g
        in diff_loop new old (dict_keys new) [])"

section \<open>The document tree\<close>

text \<open>
  The document that \<^verbatim>\<open>BeautifulSoup(text, "lxml")\<close> returns: a tag has a name, its
  attributes and its contents, which are tags and strings.  The document itself is a tag
  (named \<open>[document]\<close>).  The functions below are the operations of the library that
  \<^verbatim>\<open>agdb.py\<close> calls, after the library's documentation.  The strings of the model
  are the text strings of a page; a page is taken to hold no comment.
\<close>

datatype tag = Tag (name: string) (attrs: dict) (contents: "content list")
  and content = Element tag | NavigableString string

text \<open>
  \<^verbatim>\<open>tag.text\<close>: all the strings below the tag, concatenated.  (The library leaves
  out the strings that stand in a \<open>script\<close> or \<open>style\<close> element below the tag;
  the cells and headings of the pages modelled hold no such element.)
\<close>

fun get_text :: "tag \<Rightarrow> string" and content_text :: "content \<Rightarrow> string" where
  "get_text (Tag n a cs) = concat (map content_text cs)"
| "content_text (Element t) = get_text t"
| "content_text (NavigableString s) = s"

text \<open>
  \<^verbatim>\<open>tag.string\<close>: the string of a tag whose only child is a string, or whose only
  child is a tag that has a \<^verbatim>\<open>.string\<close>; otherwise \<^verbatim>\<open>None\<close>.
\<close>

fun tag_string :: "tag \<Rightarrow> string option" and content_string :: "content \<Rightarrow> string option" where
  "tag_string (Tag n a cs) = (case cs of [c] \<Rightarrow> content_string c | _ \<Rightarrow> None)"
| "content_string (Element t) = tag_string t"
| "content_string (NavigableString s) = Some s"

text \<open>The tags below a tag, in document order (a tag comes before the tags inside it).\<close>

fun descendant_tags :: "tag \<Rightarrow> tag list" and content_tags :: "content \<Rightarrow> tag list" where
  "descendant_tags (Tag n a cs) = concat (map content_tags cs)"
| "content_tags (Element t) = t # descendant_tags t"
| "content_tags (NavigableString s) = []"

text \<open>\<^verbatim>\<open>tag.find_all(nm)\<close>, also written \<^verbatim>\<open>tag(nm)\<close> and \<^verbatim>\<open>tag.findAll(nm)\<close>.\<close>

definition find_all :: "string \<Rightarrow> tag \<Rightarrow> tag list" where
  "find_all nm t = filter (\<lambda>e. name e = nm) (descendant_tags t)"

text \<open>\<^verbatim>\<open>tag.find(nm)\<close>: the first result of \<open>find_all\<close>, or \<^verbatim>\<open>None\<close>.\<close>

definition find_tag :: "string \<Rightarrow> tag \<Rightarrow> tag option" where
  "find_tag nm t = (case find_all nm t of [] \<Rightarrow> None | e # _ \<Rightarrow> Some e)"

text \<open>\<^verbatim>\<open>tag[key]\<close>: the value of an attribute, \<open>KeyError\<close> when the tag has none.\<close>

definition getitem_attr :: "tag \<Rightarrow> string \<Rightarrow> py_error + string" where
  "getitem_attr t key = (case map_of (attrs t) key of None \<Rightarrow> Inl KeyError | Some v \<Rightarrow> Inr v)"

text \<open>
  \<^verbatim>\<open>str(tag)\<close>: the markup of the tag with the library's default formatter.  The
  attributes are written in the order of their names.  An attribute value stands between
  double quotes, or between single quotes when it holds a double quote and no single
  quote; when it holds both, its double quotes are written \<open>&quot;\<close>.  In attribute
  values and in strings \<open>&\<close>, \<open><\<close> and \<open>>\<close> are written as entities, but a string
  that stands in a \<open>script\<close> or \<open>style\<close> element is written as it is.  A void
  element without contents is written like \<open><br/>\<close>.
\<close>

definition substitute_xml :: "string \<Rightarrow> string" where
  "substitute_xml s = concat (map (\<lambda>c.
     if c = CHR ''&'' then ''&amp;''
     else if c = CHR ''<'' then ''&lt;''
     else if c = CHR ''>'' then ''&gt;'' else [c]) s)"

definition quoted_attribute_value :: "string \<Rightarrow> string" where
  "quoted_attribute_value v =
     (if CHR 0x22 \<in> set v then
        if CHR 0x27 \<in> set v
        then [CHR 0x22] @ concat (map (\<lambda>c. if c = CHR 0x22 then ''&quot;'' else [c]) v)
             @ [CHR 0x22]
        else [CHR 0x27] @ v @ [CHR 0x27]
      else [CHR 0x22] @ v @ [CHR 0x22])"

definition attrs_markup :: "dict \<Rightarrow> string" where
  "attrs_markup a =
     concat (map (\<lambda>(k, v). '' '' @ k @ ''='' @ quoted_attribute_value (substitute_xml v))
       (sort_key fst a))"

definition void_elements :: "string list" where
  "void_elements = [''area'', ''base'', ''br'', ''col'', ''embed'', ''hr'', ''img'', ''input'',
     ''keygen'', ''link'', ''menuitem'', ''meta'', ''param'', ''source'', ''track'', ''wbr'',
     ''basefont'', ''bgsound'', ''command'', ''frame'', ''image'', ''isindex'', ''nextid'',
     ''spacer'']"

definition cdata_containing_tags :: "string list" where
  "cdata_containing_tags = [''script'', ''style'']"

fun markup :: "tag \<Rightarrow> string" and content_markup :: "string \<Rightarrow> content \<Rightarrow> string" where
  "markup (Tag n a cs) =
     (if cs = [] \<and> n \<in> set void_elements then ''<'' @ n @ attrs_markup a @ ''/>''
      else ''<'' @ n @ attrs_markup a @ ''>'' @ concat (map (content_markup n) cs)
           @ ''</'' @ n @ ''>'')"
| "content_markup parent (Element t) = markup t"
| "content_markup parent (NavigableString s) =
     (if parent \<in> set cdata_containing_tags then s else substitute_xml s)"

text \<open>
  A tag found in a document knows its place there.  A located tag is the tag together with
  the tags that come after it in document order.  \<^verbatim>\<open>tag.findNext()\<close> is the next tag
  in document order, or \<^verbatim>\<open>None\<close> at the end of the document; strings are passed over.
\<close>

type_synonym located = "tag \<times> tag list"

fun find_located :: "(tag \<Rightarrow> bool) \<Rightarrow> tag list \<Rightarrow> located option" where
  "find_located P [] = None"
| "find_located P (e # es) = (if P e then Some (e, es) else find_located P es)"

definition findNext :: "located \<Rightarrow> located option" where
  "findNext h = (case snd h of [] \<Rightarrow> None | e # es \<Rightarrow> Some (e, es))"

text \<open>\<^verbatim>\<open>s.rstrip(":")\<close> removes every colon at the end of \<open>s\<close>.\<close>

definition rstrip_colon :: "string \<Rightarrow> string" where
  "rstrip_colon s = rev (dropWhile (\<lambda>c. c = CHR '':'') (rev s))"

section \<open>game.parse\<close>

text \<open>
  The page is requested and parsed by \<open>http_get\<close>, which stands for
  \<^verbatim>\<open>_requests_session().get(url)\<close>, \<^verbatim>\<open>raise_for_status()\<close> and
  \<^verbatim>\<open>BeautifulSoup(r.text, "lxml")\<close>: it gives the document, or the exception raised.

  When the parse raises, the model gives the exception alone: what the parse has
  written to \<^verbatim>\<open>self.info\<close> before stays in that object, which nothing reads again.

  The first loop of \<^verbatim>\<open>game.parse\<close> reads \<^verbatim>\<open>row[0]\<close> and \<^verbatim>\<open>row[1]\<close> of the cells of
  every row; a row with fewer than two cells raises \<open>IndexError\<close>.
\<close>

definition cell_value :: "tag \<Rightarrow> py_error + string" where
  "cell_value v =
     (case find_tag ''a'' v of
        Some a \<Rightarrow> getitem_attr a ''href''
      | None \<Rightarrow> Inr (get_text v))"

fun rows_loop :: "tag list \<Rightarrow> dict \<Rightarrow> py_error + dict" where
  "rows_loop [] scraped = Inr scraped"
| "rows_loop (row # rows) scraped =
     (case find_all ''td'' row of
        key_cell # value_cell # _ \<Rightarrow>
          (case cell_value value_cell of
             Inl e \<Rightarrow> Inl e
           | Inr v \<Rightarrow> rows_loop rows (dict_setitem (rstrip_colon (get_text key_cell)) v scraped))
      | _ \<Rightarrow> Inl IndexError)"

text \<open>
  The second loop, \<^verbatim>\<open>while True\<close>, walks from the heading with \<^verbatim>\<open>findNext\<close>.  At the
  end of the document \<^verbatim>\<open>findNext\<close> gives \<^verbatim>\<open>None\<close>, and \<^verbatim>\<open>heading.name\<close> raises
  \<open>AttributeError\<close>.
\<close>

definition is_stop_heading :: "tag \<Rightarrow> bool" where
  "is_stop_heading h =
     (name h = ''h2'' \<and> get_text h \<in> set [''Admin'', ''Community'', ''Quick Links''])"

function description_loop :: "located \<Rightarrow> string \<Rightarrow> py_error + string" where
  "description_loop heading description =
     (case findNext heading of
        None \<Rightarrow> Inl AttributeError
      | Some h \<Rightarrow>
          if is_stop_heading (fst h) then Inr description
          else description_loop h (description @ markup (fst h)))"
  by pat_completeness auto
termination
  by (relation "measure (\<lambda>(heading, description). length (snd heading))")
    (auto simp: findNext_def split: list.splits)

declare description_loop.simps [simp del]

text \<open>
  \<^verbatim>\<open>soup.find("h2", text="Description")\<close> is the first \<open>h2\<close> whose \<^verbatim>\<open>.string\<close> is
  \<open>Description\<close>.  When there is none, \<^verbatim>\<open>heading\<close> is \<^verbatim>\<open>None\<close> and
  \<^verbatim>\<open>heading.findNext()\<close> raises \<open>AttributeError\<close>.
\<close>

text \<open>A heading is one of the elements \<open>h1\<close> to \<open>h6\<close>.\<close>

definition is_heading :: "tag \<Rightarrow> bool" where
  "is_heading e = (name e \<in> set [''h1'', ''h2'', ''h3'', ''h4'', ''h5'', ''h6''])"

definition is_description_heading :: "tag \<Rightarrow> bool" where
  "is_description_heading e = (name e = ''h2'' \<and> tag_string e = Some ''Description'')"

definition parse_soup :: "game \<Rightarrow> tag \<Rightarrow> py_error + game" where
  "parse_soup g soup =
     (case rows_loop (find_all ''tr'' soup) (info g) of
        Inl e \<Rightarrow> Inl e
      | Inr scraped \<Rightarrow>
          (case find_located is_description_heading (descendant_tags soup) of
             None \<Rightarrow> Inl AttributeError
           | Some heading \<Rightarrow>
               (case description_loop heading [] of
                  Inl e \<Rightarrow> Inl e
                | Inr description \<Rightarrow>
                    Inr (g\<lparr>info := dict_setitem ''description'' description scraped\<rparr>))))"

definition game_parse :: "(string \<Rightarrow> py_error + tag) \<Rightarrow> game \<Rightarrow> py_error + game" where
  "game_parse http_get g =
     (case http_get (db_url g) of Inl e \<Rightarrow> Inl e | Inr soup \<Rightarrow> parse_soup g soup)"

text \<open>
  \<^verbatim>\<open>game.__getattr__\<close>, which Python calls for an attribute that the object does not
  have: the value stored in \<^verbatim>\<open>info\<close> under that name, or \<open>AttributeError\<close>.
\<close>

definition game_getattr :: "game \<Rightarrow> string \<Rightarrow> py_error + string" where
  "game_getattr g attr =
     (case map_of (info g) attr of Some v \<Rightarrow> Inr v | None \<Rightarrow> Inl AttributeError)"

section \<open>class AgDB\<close>

text \<open>
  The state of an \<^verbatim>\<open>AgDB\<close> object.  \<^verbatim>\<open>_html\<close> holds the listing page (here the
  document that the parser makes of it).  The HTTP session is part of \<open>http_get\<close>.
\<close>

record AgDB =
  games :: "game list"
  games_json :: "dict list"
  html :: "tag option"
  url :: "string option"

definition base_url :: string where
  "base_url = ''https://audiogames.net/''"

text \<open>
  The file system maps the name of a file to the JSON value it holds, an array of objects
  whose values are strings (\<^verbatim>\<open>json.dump\<close> keeps the order of the array and of the keys,
  and \<^verbatim>\<open>json.load\<close> reads back what was written).
\<close>

type_synonym filesystem = "string \<rightharpoonup> dict list"

datatype filename_or_obj = Filename string | FileObj "dict list"

definition load_game_json :: "AgDB \<Rightarrow> filename_or_obj \<Rightarrow> filesystem \<Rightarrow> py_error + AgDB" where
  "load_game_json ag f fs =
     (case f of
        Filename filename \<Rightarrow>
          (case fs filename of
             None \<Rightarrow> Inl FileNotFoundError
           | Some content \<Rightarrow> Inr (ag\<lparr>games_json := content\<rparr>))
      | FileObj content \<Rightarrow> Inr (ag\<lparr>games_json := content\<rparr>))"

text \<open>
  \<^verbatim>\<open>sorted(self.games_json, key=lambda k: k["id"])\<close> computes the key of every record
  (\<open>KeyError\<close> for a record without \<open>id\<close>) and sorts the records by their keys, keeping
  records with equal keys in the order they had.  Strings are compared character by
  character.
\<close>

definition sorted_by_id :: "dict list \<Rightarrow> py_error + dict list" where
  "sorted_by_id js =
     (case those (map (\<lambda>k. map_of k ''id'') js) of
        None \<Rightarrow> Inl KeyError
      | Some keys \<Rightarrow> Inr (map snd (sort_key fst (zip keys js))))"

definition save_game_json :: "AgDB \<Rightarrow> string \<Rightarrow> filesystem \<Rightarrow> py_error + AgDB \<times> filesystem" where
  "save_game_json ag filename fs =
     (case sorted_by_id (games_json ag) of
        Inl e \<Rightarrow> Inl e
      | Inr js \<Rightarrow> Inr (ag\<lparr>games_json := js\<rparr>, fs(filename \<mapsto> js)))"


text \<open>
  \<^verbatim>\<open>urlencode({"id": id})\<close> is \<open>id=\<close> followed by \<^verbatim>\<open>quote_plus(id)\<close>, which keeps
  letters, digits and \<open>_.-~\<close>, writes a space as \<open>+\<close> and any other byte as \<open>%XX\<close>.
\<close>

definition always_safe :: "string" where
  "always_safe =
     ''ABCDEFGHIJKLMNOPQRSTUVWXYZabcdefghijklmnopqrstuvwxyz0123456789_.-~''"

definition hex_digit :: "nat \<Rightarrow> char" where
  "hex_digit n = ''0123456789ABCDEF'' ! (n mod 16)"

definition quote_plus :: "string \<Rightarrow> string" where
  "quote_plus s = concat (map (\<lambda>c.
     if c \<in> set always_safe then [c]
     else if c = CHR '' '' then ''+''
     else [CHR ''%'', hex_digit (of_char c div 16), hex_digit (of_char c)]) s)"

definition urlencode_id :: "string \<Rightarrow> string" where
  "urlencode_id i = ''id='' @ quote_plus i"

definition startswith_http :: "string \<Rightarrow> bool" where
  "startswith_http s = (take 4 s = ''http'')"

text \<open>
  The word of the specification for the URLs that need no resolving: a URL is absolute
  when it starts with a scheme, that is a letter, then letters, digits, \<open>+\<close>, \<open>-\<close> or
  \<open>.\<close>, then a colon.  The code does not test this; it tests \<open>startswith_http\<close>.
\<close>

definition spec_is_absolute_url :: "string \<Rightarrow> bool" where
  "spec_is_absolute_url u =
     (case takeWhile (\<lambda>c. c \<noteq> CHR '':'') u of
        [] \<Rightarrow> False
      | c # cs \<Rightarrow>
          length (c # cs) < length u
          \<and> c \<in> set ''ABCDEFGHIJKLMNOPQRSTUVWXYZabcdefghijklmnopqrstuvwxyz''
          \<and> set cs \<subseteq> set ''ABCDEFGHIJKLMNOPQRSTUVWXYZabcdefghijklmnopqrstuvwxyz0123456789+-.'')"

text \<open>
  \<^verbatim>\<open>AgDB.parse\<close>.  \<open>urljoin\<close> is \<^verbatim>\<open>urllib.parse.urljoin\<close>, taken as a parameter; its
  first argument is \<^verbatim>\<open>self.url\<close>, which is \<^verbatim>\<open>None\<close> until a listing was requested.
  \<^verbatim>\<open>soup.find("form", id="SelfSubmit")\<close> is the first \<open>form\<close> whose attribute \<open>id\<close> is
  \<open>SelfSubmit\<close>; subscripting \<^verbatim>\<open>None\<close> raises \<open>TypeError\<close>.
\<close>

definition detail_url :: "(string option \<Rightarrow> string \<Rightarrow> string) \<Rightarrow> string option \<Rightarrow> string \<Rightarrow> string \<Rightarrow> string" where
  "detail_url urljoin u db_base i =
     (let db_url = db_base @ ''&'' @ urlencode_id i
      in if \<not> startswith_http db_url then urljoin u db_url else db_url)"

fun options_loop ::
  "(string option \<Rightarrow> string \<Rightarrow> string) \<Rightarrow> string option \<Rightarrow> string \<Rightarrow> tag list \<Rightarrow> game list
     \<Rightarrow> py_error + game list" where
  "options_loop urljoin u db_base [] gs = Inr gs"
| "options_loop urljoin u db_base (option # options) gs =
     (case getitem_attr option ''value'' of
        Inl e \<Rightarrow> Inl e
      | Inr i \<Rightarrow>
          if i = ''Select'' then options_loop urljoin u db_base options gs
          else options_loop urljoin u db_base options
                 (gs @ [new_game i (detail_url urljoin u db_base i)]))"

definition find_form :: "tag \<Rightarrow> tag option" where
  "find_form soup =
     (case filter (\<lambda>e. name e = ''form'' \<and> map_of (attrs e) ''id'' = Some ''SelfSubmit'')
             (descendant_tags soup) of
        [] \<Rightarrow> None
      | form # _ \<Rightarrow> Some form)"

definition AgDB_parse ::
  "(string option \<Rightarrow> string \<Rightarrow> string) \<Rightarrow> AgDB \<Rightarrow> tag option \<Rightarrow> py_error + AgDB" where
  "AgDB_parse urljoin ag html_arg =
     (case (case html_arg of Some h \<Rightarrow> Some h | None \<Rightarrow> html ag) of
        None \<Rightarrow> Inl TypeError
      | Some soup \<Rightarrow>
          (case find_form soup of
             None \<Rightarrow> Inl TypeError
           | Some form \<Rightarrow>
               (case getitem_attr form ''action'' of
                  Inl e \<Rightarrow> Inl e
                | Inr db_base \<Rightarrow>
                    (case options_loop urljoin (url ag) db_base (find_all ''option'' form)
                            (games ag) of
                       Inl e \<Rightarrow> Inl e
                     | Inr gs \<Rightarrow> Inr (ag\<lparr>games := gs\<rparr>)))))"


text \<open>
  \<^verbatim>\<open>AgDB.update_if_needed\<close>.  The list comprehension reads \<^verbatim>\<open>i["id"]\<close> of every
  stored record (\<open>KeyError\<close> for a record without \<open>id\<close>) and keeps those whose \<open>id\<close> is
  equal to \<^verbatim>\<open>game.id\<close>.  \<^verbatim>\<open>list.index\<close> gives the first position that holds an equal
  record.  The value returned by the method (\<^verbatim>\<open>True\<close> after an append) is used by no
  caller and is left out.
\<close>

fun select_by_id :: "string \<Rightarrow> dict list \<Rightarrow> py_error + dict list" where
  "select_by_id gid [] = Inr []"
| "select_by_id gid (i # rest) =
     (case map_of i ''id'' of
        None \<Rightarrow> Inl KeyError
      | Some v \<Rightarrow>
          (case select_by_id gid rest of
             Inl e \<Rightarrow> Inl e
           | Inr r \<Rightarrow> Inr (if v = gid then i # r else r)))"

fun list_index :: "dict \<Rightarrow> dict list \<Rightarrow> nat option" where
  "list_index x [] = None"
| "list_index x (y # ys) = (if dict_eq y x then Some 0 else map_option Suc (list_index x ys))"

definition update_if_needed :: "AgDB \<Rightarrow> game \<Rightarrow> py_error + AgDB" where
  "update_if_needed ag g =
     (case select_by_id (game_id g) (games_json ag) of
        Inl e \<Rightarrow> Inl e
      | Inr [] \<Rightarrow> Inr (ag\<lparr>games_json := games_json ag @ [to_dict g]\<rparr>)
      | Inr (json_game # _) \<Rightarrow>
          (case diff g (Json json_game) of
             Inl e \<Rightarrow> Inl e
           | Inr d \<Rightarrow>
               if d \<noteq> [] then
                 (case list_index json_game (games_json ag) of
                    None \<Rightarrow> Inl ValueError
                  | Some idx \<Rightarrow>
                      Inr (ag\<lparr>games_json :=
                             (games_json ag)[idx := dict_update (games_json ag ! idx) d]\<rparr>))
               else Inr ag))"

text \<open>
  \<^verbatim>\<open>AgDB.get_game(self, game)\<close>.  The loop variable has the name of the parameter, so
  inside the loop \<^verbatim>\<open>game\<close> is the element of \<^verbatim>\<open>self.games\<close>, and
  \<^verbatim>\<open>game.lower()\<close> asks a \<^verbatim>\<open>game\<close> object for the attribute \<open>lower\<close>:
  \<^verbatim>\<open>__getattr__\<close> raises \<open>AttributeError\<close>, or gives a string of \<^verbatim>\<open>info\<close>, and
  calling a string raises \<open>TypeError\<close>.  The first round of the loop always raises.
\<close>

fun get_game_loop :: "game list \<Rightarrow> py_error + game option" where
  "get_game_loop [] = Inr None"
| "get_game_loop (game # rest) =
     (case game_getattr game ''lower'' of
        Inl e \<Rightarrow> Inl e
      | Inr s \<Rightarrow> Inl TypeError)"

definition get_game :: "AgDB \<Rightarrow> string \<Rightarrow> py_error + game option" where
  "get_game ag game = get_game_loop (games ag)"

section \<open>The crawl\<close>

text \<open>
  The body of the \<^verbatim>\<open>try\<close> in the main loop: \<^verbatim>\<open>g.parse()\<close>, then
  \<^verbatim>\<open>ag.update_if_needed(g)\<close>.  The parsed item is passed on; the list
  \<^verbatim>\<open>ag.games\<close>, which the loop runs over, keeps the items as listed.  The messages
  printed and the pause between two items are not modelled.
\<close>

definition process_item :: "(string \<Rightarrow> py_error + tag) \<Rightarrow> AgDB \<Rightarrow> game \<Rightarrow> py_error + AgDB" where
  "process_item http_get ag g =
     (case game_parse http_get g of Inl e \<Rightarrow> Inl e | Inr g' \<Rightarrow> update_if_needed ag g')"

text \<open>
  The main loop.  \<open>KeyboardInterrupt\<close> leaves the loop; any other exception is counted,
  and the loop is left when the count is above 5.  The result is the database, the count
  of errors and the items that the loop never reached.  An exception leaves
  \<^verbatim>\<open>games_json\<close> as it was: \<^verbatim>\<open>update_if_needed\<close> changes it only in its last
  statement.
\<close>

fun crawl :: "(string \<Rightarrow> py_error + tag) \<Rightarrow> game list \<Rightarrow> nat \<Rightarrow> AgDB \<Rightarrow> AgDB \<times> nat \<times> game list" where
  "crawl http_get [] errors ag = (ag, errors, [])"
| "crawl http_get (g # gs) errors ag =
     (case process_item http_get ag g of
        Inr ag' \<Rightarrow> crawl http_get gs errors ag'
      | Inl e \<Rightarrow>
          if e = KeyboardInterrupt then (ag, errors, gs)
          else if errors + 1 > 5 then (ag, errors + 1, gs)
          else crawl http_get gs (errors + 1) ag)"


section \<open>Example documents\<close>

text \<open>
  A detail page with a row of two cells and a row of three, and a description of one
  paragraph that holds two tags; a detail page with a row of one cell; a detail page
  whose description is a \<open>div\<close> that holds a paragraph and a stop heading; a detail
  page without a \<open>Description\<close> heading; a listing page with eight games.
\<close>

definition example_rows :: "content" where
  "example_rows = Element (Tag ''table'' [] [
     Element (Tag ''tr'' [] [
       Element (Tag ''td'' [] [NavigableString ''Author:'']),
       Element (Tag ''td'' [] [NavigableString ''Bob''])]),
     Element (Tag ''tr'' [] [
       Element (Tag ''td'' [] [NavigableString ''Site::'']),
       Element (Tag ''td'' [] [Element (Tag ''a'' [(''href'', ''http://x'')] [NavigableString ''here''])]),
       Element (Tag ''td'' [] [NavigableString ''extra''])])])"

definition example_detail_page :: tag where
  "example_detail_page = Tag ''[document]'' [] [Element (Tag ''html'' [] [Element (Tag ''body'' [] [
     example_rows,
     Element (Tag ''h2'' [] [NavigableString ''Description'']),
     Element (Tag ''p'' [] [NavigableString ''a < b '', Element (Tag ''b'' [] [NavigableString ''c'']),
        Element (Tag ''br'' [] [])]),
     Element (Tag ''h2'' [] [NavigableString ''Community'']),
     Element (Tag ''p'' [] [NavigableString ''after''])])])]"

definition example_short_row_page :: tag where
  "example_short_row_page = Tag ''[document]'' [] [Element (Tag ''html'' [] [Element (Tag ''body'' [] [
     Element (Tag ''table'' [] [
       Element (Tag ''tr'' [] [Element (Tag ''td'' [] [NavigableString ''Details''])])]),
     Element (Tag ''h2'' [] [NavigableString ''Description'']),
     Element (Tag ''p'' [] [NavigableString ''text'']),
     Element (Tag ''h2'' [] [NavigableString ''Admin''])])])]"

definition example_nested_stop_page :: tag where
  "example_nested_stop_page = Tag ''[document]'' [] [Element (Tag ''html'' [] [Element (Tag ''body'' [] [
     Element (Tag ''h2'' [] [NavigableString ''Description'']),
     Element (Tag ''div'' [] [
       Element (Tag ''p'' [] [NavigableString ''x'']),
       Element (Tag ''h2'' [] [NavigableString ''Admin''])]),
     Element (Tag ''h2'' [] [NavigableString ''Community'']),
     Element (Tag ''p'' [] [NavigableString ''after''])])])]"

definition example_no_description_page :: tag where
  "example_no_description_page = Tag ''[document]'' [] [Element (Tag ''html'' [] [Element (Tag ''body'' [] [
     example_rows,
     Element (Tag ''h2'' [] [NavigableString ''About'']),
     Element (Tag ''p'' [] [NavigableString ''text'']),
     Element (Tag ''h2'' [] [NavigableString ''Admin''])])])]"



definition example_urljoin :: "string option \<Rightarrow> string \<Rightarrow> string" where
  "example_urljoin base u = (case base of None \<Rightarrow> u | Some b \<Rightarrow> b @ u)"

section \<open>Evaluating the model\<close>

text \<open>
  The definitions that the simplifier unfolds to run a parse on a given document.
\<close>

lemmas parse_eval = parse_soup_def new_game_def find_all_def find_tag_def cell_value_def
  getitem_attr_def rstrip_colon_def dict_setitem_def is_description_heading_def findNext_def
  is_stop_heading_def void_elements_def attrs_markup_def substitute_xml_def
  quoted_attribute_value_def cdata_containing_tags_def
  description_loop.simps

lemmas listing_eval = AgDB_parse_def find_form_def find_all_def getitem_attr_def
  detail_url_def urlencode_id_def quote_plus_def always_safe_def hex_digit_def
  startswith_http_def example_urljoin_def base_url_def new_game_def


section \<open>Properties of dicts\<close>

lemma map_of_dict_setitem:
  "map_of (dict_setitem k v d) = (map_of d)(k \<mapsto> v)"
  by (simp add: dict_setitem_def update_conv')

lemma dict_setitem_not_Nil: "dict_setitem k v d \<noteq> []"
  by (simp add: dict_setitem_def)

lemma map_of_eq_None_keys: "(map_of d k = None) = (k \<notin> set (dict_keys d))"
  by (simp add: dict_keys_def map_of_eq_None_iff)

lemma map_of_update_loop:
  "map_of (update_loop other ks d) k =
     (if k \<in> set ks \<and> map_of other k \<noteq> None then map_of other k else map_of d k)"
proof (induction ks arbitrary: d)
  case Nil
  show ?case by simp
next
  case (Cons a ks)
  show ?case
  proof (cases "map_of other a")
    case None
    with Cons show ?thesis by auto
  next
    case (Some v)
    with Cons show ?thesis by (auto simp: map_of_dict_setitem)
  qed
qed

lemma map_of_dict_update:
  "map_of (dict_update d other) k =
     (case map_of other k of None \<Rightarrow> map_of d k | Some v \<Rightarrow> Some v)"
proof (cases "map_of other k")
  case None
  then show ?thesis by (simp add: dict_update_def map_of_update_loop)
next
  case (Some v)
  then have "k \<in> set (dict_keys other)"
    using map_of_eq_None_keys [of other k] by simp
  with Some show ?thesis by (simp add: dict_update_def map_of_update_loop)
qed

lemma map_of_to_dict:
  "map_of (to_dict g) k =
     (case map_of (info g) k of
        Some v \<Rightarrow> Some v
      | None \<Rightarrow> if k = ''id'' then Some (game_id g)
                else if k = ''db_url'' then Some (db_url g) else None)"
  by (auto simp: to_dict_def map_of_dict_update split: option.splits)

section \<open>Properties of the diff\<close>

lemma diff_loop_total:
  "set ks \<subseteq> set (dict_keys new) \<Longrightarrow> \<exists>d'. diff_loop new old ks d = Inr d'"
proof (induction ks arbitrary: d)
  case Nil
  show ?case by simp
next
  case (Cons k ks)
  then have "map_of new k \<noteq> None"
    using map_of_eq_None_keys [of new k] by simp
  then obtain v where "map_of new k = Some v" by blast
  with Cons show ?case by simp
qed

lemma diff_loop_lookup:
  "diff_loop new old ks d = Inr d' \<Longrightarrow>
   map_of d' k =
     (if k \<in> set ks \<and> map_of new k \<noteq> map_of old k then map_of new k else map_of d k)"
proof (induction ks arbitrary: d)
  case Nil
  then show ?case by simp
next
  case (Cons a ks)
  from Cons.prems obtain v where v: "map_of new a = Some v"
    by (cases "map_of new a") simp_all
  show ?case
  proof (cases "\<not> dict_contains a old \<or> Some v \<noteq> map_of old a")
    case True
    with Cons.prems v have "diff_loop new old ks (dict_setitem a v d) = Inr d'"
      by simp
    from Cons.IH [OF this] True v show ?thesis
      by (auto simp: map_of_dict_setitem dict_contains_def)
  next
    case False
    with Cons.prems v have "diff_loop new old ks d = Inr d'"
      by simp
    from Cons.IH [OF this] False v show ?thesis
      by (auto simp: dict_contains_def)
  qed
qed

lemma diff_loop_Nil:
  "diff_loop new old ks d = Inr d' \<Longrightarrow>
   (d' = []) = (d = [] \<and> (\<forall>k\<in>set ks. map_of new k = map_of old k))"
proof (induction ks arbitrary: d)
  case Nil
  then show ?case by auto
next
  case (Cons a ks)
  from Cons.prems obtain v where v: "map_of new a = Some v"
    by (cases "map_of new a") simp_all
  show ?case
  proof (cases "\<not> dict_contains a old \<or> Some v \<noteq> map_of old a")
    case True
    with Cons.prems v have "diff_loop new old ks (dict_setitem a v d) = Inr d'"
      by simp
    from Cons.IH [OF this] True v show ?thesis
      by (auto simp: dict_setitem_not_Nil dict_contains_def)
  next
    case False
    with Cons.prems v have "diff_loop new old ks d = Inr d'"
      by simp
    from Cons.IH [OF this] False v show ?thesis
      by (auto simp: dict_contains_def)
  qed
qed

lemma diff_parsed:
  assumes "info g \<noteq> []"
  shows "diff g p = diff_loop (to_dict g) (prior_record p) (dict_keys (to_dict g)) []"
  using assms by (simp add: diff_def Let_def)

subsection \<open>Looking a record up by its identifier\<close>

lemma select_by_id_filter:
  "\<forall>r\<in>set js. map_of r ''id'' \<noteq> None \<Longrightarrow>
   select_by_id gid js = Inr (filter (\<lambda>r. map_of r ''id'' = Some gid) js)"
  by (induction js) auto

lemma filter_first_match:
  "\<forall>p\<in>set pre. \<not> P p \<Longrightarrow> P r \<Longrightarrow> filter P (pre @ r # post) = r # filter P post"
  by (induction pre) auto

lemma dict_eq_refl: "dict_eq r r"
  by (simp add: dict_eq_def)

lemma dict_eq_lookup:
  assumes "dict_eq p r" and "map_of r k = Some v"
  shows "map_of p k = Some v"
proof -
  from assms(2) have "k \<in> set (dict_keys r)"
    using map_of_eq_None_keys [of r k] by simp
  with assms show ?thesis by (simp add: dict_eq_def)
qed

lemma list_index_first:
  assumes "\<forall>p\<in>set pre. map_of p k \<noteq> Some v" and "map_of r k = Some v"
  shows "list_index r (pre @ r # post) = Some (length pre)"
  using assms
proof (induction pre)
  case Nil
  then show ?case by (simp add: dict_eq_refl)
next
  case (Cons p pre)
  then have "\<not> dict_eq p r"
    using dict_eq_lookup [of p r k v] by auto
  with Cons show ?case by simp
qed

subsection \<open>The diff of a parsed item\<close>

lemma diff_parsed_lookup:
  assumes "info g \<noteq> []"
  shows "\<exists>d. diff g p = Inr d
     \<and> (\<forall>k. map_of d k =
          (if map_of (to_dict g) k \<noteq> None
              \<and> map_of (to_dict g) k \<noteq> map_of (prior_record p) k
           then map_of (to_dict g) k else None))"
proof -
  let ?new = "to_dict g" and ?old = "prior_record p"
  obtain d where d: "diff_loop ?new ?old (dict_keys ?new) [] = Inr d"
    using diff_loop_total [of "dict_keys ?new" ?new ?old "[]"] by auto
  have "map_of d k =
      (if map_of ?new k \<noteq> None \<and> map_of ?new k \<noteq> map_of ?old k
       then map_of ?new k else None)" for k
    using diff_loop_lookup [OF d, of k] map_of_eq_None_keys [of ?new k] by auto
  with d show ?thesis
    using diff_parsed [OF assms, of p] by auto
qed

text \<open>
  C1.  A parsed item is one whose \<open>info\<close> is not empty (\<^verbatim>\<open>game.parse\<close> always stores
  the key \<open>description\<close>).  For such an item and any prior record, \<open>diff\<close> returns a
  dict \<open>d\<close>; a key has a value in \<open>d\<close> exactly when it is a key of the new record
  \<open>to_dict g\<close> that the prior record lacks or holds with a different value, and the value
  in \<open>d\<close> is the new one.  A key that only the prior record has is therefore not in \<open>d\<close>,
  and \<open>d\<close> is empty exactly when the prior record holds every key of the new record
  with an equal value.
\<close>

theorem diff_changed_or_added_keys:
  assumes "info g \<noteq> []"
  shows "\<exists>d. diff g p = Inr d
     \<and> (\<forall>k. map_of d k =
          (if map_of (to_dict g) k \<noteq> None
              \<and> map_of (to_dict g) k \<noteq> map_of (prior_record p) k
           then map_of (to_dict g) k else None))
     \<and> (\<forall>k. map_of (to_dict g) k = None \<longrightarrow> map_of d k = None)
     \<and> ((d = []) =
          (\<forall>k\<in>set (dict_keys (to_dict g)). map_of (prior_record p) k = map_of (to_dict g) k))"
proof -
  let ?new = "to_dict g" and ?old = "prior_record p"
  obtain d where d: "diff_loop ?new ?old (dict_keys ?new) [] = Inr d"
    using diff_loop_total [of "dict_keys ?new" ?new ?old "[]"] by auto
  have look: "map_of d k =
      (if map_of ?new k \<noteq> None \<and> map_of ?new k \<noteq> map_of ?old k
       then map_of ?new k else None)" for k
    using diff_loop_lookup [OF d, of k] map_of_eq_None_keys [of ?new k] by auto
  have empty: "(d = []) = (\<forall>k\<in>set (dict_keys ?new). map_of ?old k = map_of ?new k)"
    using diff_loop_Nil [OF d] by auto
  from d look empty show ?thesis
    using diff_parsed [OF assms, of p] by auto
qed

theorem diff_changed_or_added_keys_witness:
  "diff \<lparr>game_id = ''g1'', db_url = ''u'', info = [(''a'', ''1''), (''b'', ''3''), (''c'', ''4'')]\<rparr>
     (Json [(''id'', ''g1''), (''db_url'', ''u''), (''a'', ''1''), (''b'', ''2''), (''z'', ''9'')])
   = Inr [(''b'', ''3''), (''c'', ''4'')]
   \<and> map_of [(''b'', ''3''), (''c'', ''4'')] ''z'' = None"
proof -
  let ?g = "\<lparr>game_id = ''g1'', db_url = ''u'',
              info = [(''a'', ''1''), (''b'', ''3''), (''c'', ''4'')]\<rparr>"
  have ne: "info ?g \<noteq> []" by simp
  have run: "diff ?g (Json [(''id'', ''g1''), (''db_url'', ''u''), (''a'', ''1''),
                (''b'', ''2''), (''z'', ''9'')]) = Inr [(''b'', ''3''), (''c'', ''4'')]"
    by (simp add: diff_def prior_record_def to_dict_def dict_update_def dict_keys_def
        dict_setitem_def dict_contains_def)
  from diff_changed_or_added_keys [OF ne, of "Json [(''id'', ''g1''), (''db_url'', ''u''),
      (''a'', ''1''), (''b'', ''2''), (''z'', ''9'')]"] run
  show ?thesis by simp
qed

text \<open>
  C10.  When the scraped attributes of an item contain a key named \<open>id\<close> or
  \<open>db_url\<close>, the record that \<open>to_dict\<close> builds holds the scraped value under that key,
  whatever the item's own identifier and URL are.
\<close>

theorem to_dict_scraped_overrides:
  assumes "k = ''id'' \<or> k = ''db_url''" and "map_of (info g) k = Some v"
  shows "map_of (to_dict g) k = Some v"
  using assms by (simp add: map_of_to_dict)

theorem to_dict_scraped_overrides_witness:
  "map_of (to_dict \<lparr>game_id = ''g1'', db_url = ''u'',
      info = [(''id'', ''other''), (''description'', '''')]\<rparr>) ''id'' = Some ''other''
   \<and> ''other'' \<noteq> ''g1''"
proof -
  let ?g = "\<lparr>game_id = ''g1'', db_url = ''u'',
      info = [(''id'', ''other''), (''description'', '''')]\<rparr>"
  have "map_of (info ?g) ''id'' = Some ''other''" by simp
  from to_dict_scraped_overrides [of "''id''" ?g "''other''", OF _ this]
  show ?thesis by simp
qed

section \<open>The collection of records\<close>

text \<open>
  C6.  Every stored record is taken to have an \<open>id\<close>, and the item to be parsed.  When
  no stored record has the item's identifier, \<open>update_if_needed\<close> appends the item's
  record.  Otherwise the first stored record \<open>r\<close> with that identifier is replaced, at
  its place, by a record \<open>r'\<close> that holds every key of the diff \<open>d\<close> with the value of
  the diff and every other key of \<open>r\<close> with the value it had; the records before and
  after it stay as they are, and no key of \<open>r\<close> is lost.
\<close>

theorem update_if_needed_upsert:
  assumes "\<forall>r\<in>set (games_json ag). map_of r ''id'' \<noteq> None" and "info g \<noteq> []"
  shows "((\<forall>r\<in>set (games_json ag). map_of r ''id'' \<noteq> Some (game_id g)) \<longrightarrow>
            update_if_needed ag g = Inr (ag\<lparr>games_json := games_json ag @ [to_dict g]\<rparr>))
     \<and> (\<forall>pre r post.
            games_json ag = pre @ r # post
            \<and> (\<forall>p\<in>set pre. map_of p ''id'' \<noteq> Some (game_id g))
            \<and> map_of r ''id'' = Some (game_id g) \<longrightarrow>
            (\<exists>d r'. diff g (Json r) = Inr d
               \<and> update_if_needed ag g = Inr (ag\<lparr>games_json := pre @ r' # post\<rparr>)
               \<and> (\<forall>k. map_of r' k = (case map_of d k of Some v \<Rightarrow> Some v | None \<Rightarrow> map_of r k))))"
proof (intro conjI allI impI)
  assume none: "\<forall>r\<in>set (games_json ag). map_of r ''id'' \<noteq> Some (game_id g)"
  then have "filter (\<lambda>r. map_of r ''id'' = Some (game_id g)) (games_json ag) = []"
    by (simp add: filter_empty_conv)
  then show "update_if_needed ag g = Inr (ag\<lparr>games_json := games_json ag @ [to_dict g]\<rparr>)"
    using select_by_id_filter [OF assms(1), of "game_id g"]
    by (simp add: update_if_needed_def)
next
  fix pre r post
  assume h: "games_json ag = pre @ r # post
      \<and> (\<forall>p\<in>set pre. map_of p ''id'' \<noteq> Some (game_id g))
      \<and> map_of r ''id'' = Some (game_id g)"
  let ?P = "\<lambda>r. map_of r ''id'' = Some (game_id g)"
  from h have sel: "select_by_id (game_id g) (games_json ag) = Inr (r # filter ?P post)"
    using select_by_id_filter [OF assms(1), of "game_id g"] filter_first_match [of pre ?P r post]
    by simp
  from h have idx: "list_index r (games_json ag) = Some (length pre)"
    using list_index_first [of pre "''id''" "game_id g" r post] by simp
  obtain d where d: "diff g (Json r) = Inr d"
    using diff_parsed_lookup [OF assms(2), of "Json r"] by blast
  show "\<exists>d r'. diff g (Json r) = Inr d
      \<and> update_if_needed ag g = Inr (ag\<lparr>games_json := pre @ r' # post\<rparr>)
      \<and> (\<forall>k. map_of r' k = (case map_of d k of Some v \<Rightarrow> Some v | None \<Rightarrow> map_of r k))"
  proof (cases "d = []")
    case True
    with sel d h have "update_if_needed ag g = Inr (ag\<lparr>games_json := pre @ r # post\<rparr>)"
      by (simp add: update_if_needed_def)
    with d True show ?thesis by auto
  next
    case False
    from h have "(games_json ag)[length pre := dict_update (games_json ag ! length pre) d]
        = pre @ dict_update r d # post"
      by simp
    with sel d idx False
    have "update_if_needed ag g = Inr (ag\<lparr>games_json := pre @ dict_update r d # post\<rparr>)"
      by (simp add: update_if_needed_def)
    with d show ?thesis by (auto simp: map_of_dict_update)
  qed
qed

theorem update_if_needed_upsert_witness:
  "update_if_needed
     \<lparr>games = [], games_json =
        [[(''id'', ''g0''), (''db_url'', ''u0'')],
         [(''id'', ''g1''), (''db_url'', ''u''), (''a'', ''1''), (''b'', ''2'')]],
      html = None, url = None\<rparr>
     \<lparr>game_id = ''g1'', db_url = ''u'', info = [(''a'', ''1''), (''b'', ''3''), (''c'', ''4'')]\<rparr>
   = Inr \<lparr>games = [], games_json =
        [[(''id'', ''g0''), (''db_url'', ''u0'')],
         [(''id'', ''g1''), (''db_url'', ''u''), (''a'', ''1''), (''b'', ''3''), (''c'', ''4'')]],
      html = None, url = None\<rparr>"
proof -
  let ?r0 = "[(''id'', ''g0''), (''db_url'', ''u0'')]"
  let ?r1 = "[(''id'', ''g1''), (''db_url'', ''u''), (''a'', ''1''), (''b'', ''2'')]"
  let ?ag = "\<lparr>games = [], games_json = [?r0, ?r1], html = None, url = None\<rparr>"
  let ?g = "\<lparr>game_id = ''g1'', db_url = ''u'',
      info = [(''a'', ''1''), (''b'', ''3''), (''c'', ''4'')]\<rparr>"
  have ids: "\<forall>r\<in>set (games_json ?ag). map_of r ''id'' \<noteq> None" by simp
  have parsed: "info ?g \<noteq> []" by simp
  have d: "diff ?g (Json ?r1) = Inr [(''b'', ''3''), (''c'', ''4'')]"
    by (simp add: diff_def prior_record_def to_dict_def dict_update_def dict_keys_def
        dict_setitem_def dict_contains_def)
  have "games_json ?ag = [?r0] @ ?r1 # []
      \<and> (\<forall>p\<in>set [?r0]. map_of p ''id'' \<noteq> Some (game_id ?g))
      \<and> map_of ?r1 ''id'' = Some (game_id ?g)"
    by simp
  with update_if_needed_upsert [OF ids parsed]
  obtain d' r' where r': "diff ?g (Json ?r1) = Inr d'"
      "update_if_needed ?ag ?g = Inr (?ag\<lparr>games_json := [?r0] @ r' # []\<rparr>)"
    by blast
  have "update_if_needed ?ag ?g = Inr (?ag\<lparr>games_json :=
      [?r0, [(''id'', ''g1''), (''db_url'', ''u''), (''a'', ''1''), (''b'', ''3''), (''c'', ''4'')]]\<rparr>)"
    by (simp add: update_if_needed_def d dict_eq_def dict_keys_def dict_update_def
        dict_setitem_def)
  with r' show ?thesis by simp
qed

text \<open>
  C5.  \<open>get_game\<close> on a database that lists the game \<open>Foo\<close>, asked for \<open>foo\<close>: the
  lookup raises \<open>AttributeError\<close> instead of returning the game.
\<close>

theorem get_game_raises:
  "get_game \<lparr>games = [new_game ''Foo'' ''https://audiogames.net/db.php?id=Foo''],
             games_json = [], html = None, url = None\<rparr> ''foo'' = Inl AttributeError"
  by (simp add: get_game_def new_game_def game_getattr_def)

section \<open>Saving and loading\<close>

lemma those_map_Some:
  "\<forall>r\<in>set js. f r \<noteq> None \<Longrightarrow> \<exists>ks. those (map f js) = Some ks \<and> map Some ks = map f js"
proof (induction js)
  case Nil
  show ?case by simp
next
  case (Cons r js)
  then obtain ks where "those (map f js) = Some ks" "map Some ks = map f js" by auto
  moreover from Cons.prems obtain k where "f r = Some k" by auto
  ultimately show ?case by simp
qed

lemma zip_keys_snd:
  "map Some ks = map f js \<Longrightarrow> map snd (zip ks js) = js"
  by (induction js arbitrary: ks) auto

lemma zip_keys_fst:
  "map Some ks = map f js \<Longrightarrow> \<forall>p\<in>set (zip ks js). f (snd p) = Some (fst p)"
proof (induction js arbitrary: ks)
  case Nil
  then show ?case by simp
next
  case (Cons r js)
  then obtain k ks' where ks: "ks = k # ks'" "f r = Some k" "map Some ks' = map f js"
    by (cases ks) auto
  from Cons.IH [OF ks(3)] ks show ?case by simp
qed

lemma sorted_by_id_result:
  assumes "\<forall>r\<in>set js. map_of r ''id'' \<noteq> None"
  shows "\<exists>js' ids. sorted_by_id js = Inr js'
     \<and> those (map (\<lambda>r. map_of r ''id'') js') = Some ids \<and> sorted ids \<and> mset js' = mset js"
proof -
  let ?f = "\<lambda>r. map_of r ''id''"
  obtain ks where ks: "those (map ?f js) = Some ks" "map Some ks = map ?f js"
    using those_map_Some [OF assms] by blast
  let ?ps = "sort_key fst (zip ks js)"
  let ?js' = "map snd ?ps"
  have res: "sorted_by_id js = Inr ?js'"
    using ks by (simp add: sorted_by_id_def)
  have "mset ?js' = image_mset snd (mset (zip ks js))"
    by simp
  also have "\<dots> = mset (map snd (zip ks js))" by simp
  also have "\<dots> = mset js" using zip_keys_snd [OF ks(2)] by simp
  finally have perm: "mset ?js' = mset js" .
  have "\<forall>p\<in>set ?ps. ?f (snd p) = Some (fst p)"
    using zip_keys_fst [OF ks(2)] by simp
  then have e: "map ?f ?js' = map Some (map fst ?ps)"
    by (simp add: comp_def)
  have t: "those (map Some xs) = Some xs" for xs :: "string list"
    by (induction xs) auto
  have ids: "those (map ?f ?js') = Some (map fst ?ps)"
    unfolding e by (rule t)
  have "sorted (map fst ?ps)" by (rule sorted_sort_key)
  with res ids perm show ?thesis by blast
qed

text \<open>
  C9.  When every record of the collection has an \<open>id\<close>, \<open>save_game_json\<close> succeeds
  and writes a list \<open>js\<close>; \<open>load_game_json\<close> of that file, by any \<open>AgDB\<close> object,
  makes \<open>js\<close> its collection.  The identifiers of \<open>js\<close> are in ascending order, and
  \<open>js\<close> holds the records of the collection that was saved, each as often as there,
  whatever their order was.
\<close>

theorem save_then_load_sorted:
  assumes "\<forall>r\<in>set (games_json ag). map_of r ''id'' \<noteq> None"
  shows "\<exists>js ids. save_game_json ag filename fs = Inr (ag\<lparr>games_json := js\<rparr>, fs(filename \<mapsto> js))
     \<and> load_game_json ag' (Filename filename) (fs(filename \<mapsto> js)) = Inr (ag'\<lparr>games_json := js\<rparr>)
     \<and> those (map (\<lambda>r. map_of r ''id'') js) = Some ids \<and> sorted ids
     \<and> mset js = mset (games_json ag)"
proof -
  obtain js ids where "sorted_by_id (games_json ag) = Inr js"
    "those (map (\<lambda>r. map_of r ''id'') js) = Some ids" "sorted ids" "mset js = mset (games_json ag)"
    using sorted_by_id_result [OF assms] by blast
  then show ?thesis
    by (auto simp: save_game_json_def load_game_json_def)
qed

theorem save_then_load_sorted_witness:
  "save_game_json
     \<lparr>games = [], games_json = [[(''id'', ''b'')], [(''id'', ''a''), (''x'', ''1'')], [(''id'', ''B'')]],
      html = None, url = None\<rparr> ''out.json'' Map.empty
   = Inr (\<lparr>games = [], games_json = [[(''id'', ''B'')], [(''id'', ''a''), (''x'', ''1'')], [(''id'', ''b'')]],
           html = None, url = None\<rparr>,
          [''out.json'' \<mapsto> [[(''id'', ''B'')], [(''id'', ''a''), (''x'', ''1'')], [(''id'', ''b'')]]])
   \<and> load_game_json \<lparr>games = [], games_json = [], html = None, url = None\<rparr> (Filename ''out.json'')
       [''out.json'' \<mapsto> [[(''id'', ''B'')], [(''id'', ''a''), (''x'', ''1'')], [(''id'', ''b'')]]]
     = Inr \<lparr>games = [], games_json = [[(''id'', ''B'')], [(''id'', ''a''), (''x'', ''1'')], [(''id'', ''b'')]],
            html = None, url = None\<rparr>"
proof -
  let ?ag = "\<lparr>games = [], games_json = [[(''id'', ''b'')], [(''id'', ''a''), (''x'', ''1'')], [(''id'', ''B'')]],
      html = None, url = None\<rparr>"
  let ?ag' = "\<lparr>games = [], games_json = [], html = None, url = None\<rparr>"
  have ids: "\<forall>r\<in>set (games_json ?ag). map_of r ''id'' \<noteq> None" by simp
  have save: "save_game_json ?ag ''out.json'' Map.empty
      = Inr (?ag\<lparr>games_json := [[(''id'', ''B'')], [(''id'', ''a''), (''x'', ''1'')], [(''id'', ''b'')]]\<rparr>,
          [''out.json'' \<mapsto> [[(''id'', ''B'')], [(''id'', ''a''), (''x'', ''1'')], [(''id'', ''b'')]]])"
    by (simp add: save_game_json_def sorted_by_id_def)
  from save_then_load_sorted [OF ids, of "''out.json''" Map.empty ?ag']
  obtain js where "save_game_json ?ag ''out.json'' Map.empty
        = Inr (?ag\<lparr>games_json := js\<rparr>, [''out.json'' \<mapsto> js])"
      "load_game_json ?ag' (Filename ''out.json'') [''out.json'' \<mapsto> js]
        = Inr (?ag'\<lparr>games_json := js\<rparr>)"
    by blast
  with save show ?thesis by simp
qed

section \<open>The detail page\<close>

lemma rows_loop_append:
  "rows_loop (xs @ ys) d =
     (case rows_loop xs d of Inl e \<Rightarrow> Inl e | Inr d1 \<Rightarrow> rows_loop ys d1)"
  by (induction xs arbitrary: d) (auto split: list.splits sum.splits)

lemma rows_loop_short_row:
  "row \<in> set rows \<Longrightarrow> length (find_all ''td'' row) < 2 \<Longrightarrow> \<exists>e. rows_loop rows d = Inl e"
proof (induction rows arbitrary: d)
  case Nil
  then show ?case by simp
next
  case (Cons r rows)
  show ?case
  proof (cases "r = row")
    case True
    with Cons.prems show ?thesis
      by (auto split: list.splits)
  next
    case False
    with Cons show ?thesis
      by (auto split: list.splits sum.splits)
  qed
qed

lemma rows_loop_error:
  "rows_loop rows d = Inl e \<Longrightarrow> e = IndexError \<or> e = KeyError"
  by (induction rows arbitrary: d)
    (auto simp: cell_value_def getitem_attr_def split: list.splits sum.splits option.splits)

lemma find_located_first:
  "\<forall>e\<in>set pre. \<not> P e \<Longrightarrow> P h \<Longrightarrow> find_located P (pre @ h # after) = Some (h, after)"
  by (induction pre) auto

lemma find_located_None:
  "\<forall>e\<in>set es. \<not> P e \<Longrightarrow> find_located P es = None"
  by (induction es) auto

lemma description_loop_stop:
  "\<forall>e\<in>set ns. \<not> is_stop_heading e \<Longrightarrow> is_stop_heading stop \<Longrightarrow>
   description_loop (h, ns @ stop # rest) acc = Inr (acc @ concat (map markup ns))"
proof (induction ns arbitrary: h acc)
  case Nil
  then show ?case
    by (subst description_loop.simps) (simp add: findNext_def)
next
  case (Cons n ns)
  then have "description_loop (h, (n # ns) @ stop # rest) acc
      = description_loop (n, ns @ stop # rest) (acc @ markup n)"
    by (subst description_loop.simps) (simp add: findNext_def)
  with Cons show ?case by simp
qed

text \<open>Without a stop heading the loop ends too, at the end of the document.\<close>

lemma description_loop_end:
  "\<forall>e\<in>set ns. \<not> is_stop_heading e \<Longrightarrow> description_loop (h, ns) acc = Inl AttributeError"
proof (induction ns arbitrary: h acc)
  case Nil
  then show ?case
    by (subst description_loop.simps) (simp add: findNext_def)
next
  case (Cons n ns)
  then have "description_loop (h, n # ns) acc = description_loop (n, ns) (acc @ markup n)"
    by (subst description_loop.simps) (simp add: findNext_def)
  with Cons show ?case by simp
qed

lemma tag_string_get_text:
  "tag_string t = Some s \<Longrightarrow> get_text t = s"
  "content_string c = Some s \<Longrightarrow> content_text c = s"
  by (induction t and c arbitrary: s and s rule: tag_string_content_string.induct)
     (auto split: list.splits)


lemma process_item_parse_error:
  "http_get (db_url g) = Inr soup \<Longrightarrow> parse_soup g soup = Inl e \<Longrightarrow>
   process_item http_get ag g = Inl e"
  by (simp add: process_item_def game_parse_def)

text \<open>
  C2, as the code has it.  A row whose cells are \<open>kc\<close>, \<open>vc\<close> and any further cells
  \<open>extra\<close> is processed from its first two cells, wherever it stands among the rows:
  the key is the text of \<open>kc\<close> without the colons at its end, and the value is that of
  \<open>vc\<close>, the \<open>href\<close> of its first link when it has a link and its text otherwise; the
  further cells are not read.  A row with fewer than two cells is not passed over: it
  raises \<open>IndexError\<close> when the rows before it were read, and the parse of a page that
  has such a row fails.
\<close>

theorem rows_loop_first_two_cells:
  "(\<forall>pre row post kc vc extra v d.
      find_all ''td'' row = kc # vc # extra \<and> cell_value vc = Inr v \<longrightarrow>
      rows_loop (pre @ row # post) d =
        (case rows_loop pre d of
           Inl e \<Rightarrow> Inl e
         | Inr d1 \<Rightarrow> rows_loop post (dict_setitem (rstrip_colon (get_text kc)) v d1)))
   \<and> (\<forall>vc. cell_value vc =
        (case find_tag ''a'' vc of
           Some a \<Rightarrow> (case map_of (attrs a) ''href'' of None \<Rightarrow> Inl KeyError | Some u \<Rightarrow> Inr u)
         | None \<Rightarrow> Inr (get_text vc)))
   \<and> (\<forall>pre row post d d1.
        rows_loop pre d = Inr d1 \<and> length (find_all ''td'' row) < 2 \<longrightarrow>
        rows_loop (pre @ row # post) d = Inl IndexError)
   \<and> (\<forall>g soup row.
        row \<in> set (find_all ''tr'' soup) \<and> length (find_all ''td'' row) < 2 \<longrightarrow>
        (\<exists>e. parse_soup g soup = Inl e))"
proof (intro conjI allI impI)
  fix pre row post kc vc extra v d
  assume "find_all ''td'' row = kc # vc # extra \<and> cell_value vc = Inr v"
  then show "rows_loop (pre @ row # post) d =
        (case rows_loop pre d of
           Inl e \<Rightarrow> Inl e
         | Inr d1 \<Rightarrow> rows_loop post (dict_setitem (rstrip_colon (get_text kc)) v d1))"
    by (simp add: rows_loop_append split: sum.splits)
next
  fix vc
  show "cell_value vc =
        (case find_tag ''a'' vc of
           Some a \<Rightarrow> (case map_of (attrs a) ''href'' of None \<Rightarrow> Inl KeyError | Some u \<Rightarrow> Inr u)
         | None \<Rightarrow> Inr (get_text vc))"
    by (simp add: cell_value_def getitem_attr_def split: option.splits)
next
  fix pre row post and d d1 :: dict
  assume "rows_loop pre d = Inr d1 \<and> length (find_all ''td'' row) < 2"
  then show "rows_loop (pre @ row # post) d = Inl IndexError"
    by (auto simp: rows_loop_append split: list.splits)
next
  fix g :: game and soup row
  assume "row \<in> set (find_all ''tr'' soup) \<and> length (find_all ''td'' row) < 2"
  then obtain e where "rows_loop (find_all ''tr'' soup) (info g) = Inl e"
    using rows_loop_short_row [of row "find_all ''tr'' soup" "info g"] by blast
  then show "\<exists>e. parse_soup g soup = Inl e"
    by (simp add: parse_soup_def)
qed

theorem rows_loop_first_two_cells_witness:
  "rows_loop
     [Tag ''tr'' [] [
        Element (Tag ''td'' [] [NavigableString ''Author:'']),
        Element (Tag ''td'' [] [NavigableString ''Bob''])],
      Tag ''tr'' [] [
        Element (Tag ''td'' [] [NavigableString ''Site::'']),
        Element (Tag ''td'' [] [Element (Tag ''a'' [(''href'', ''http://x'')] [NavigableString ''here''])]),
        Element (Tag ''td'' [] [NavigableString ''extra''])]] []
   = Inr [(''Author'', ''Bob''), (''Site'', ''http://x'')]"
proof -
  let ?r2 = "Tag ''tr'' [] [
        Element (Tag ''td'' [] [NavigableString ''Author:'']),
        Element (Tag ''td'' [] [NavigableString ''Bob''])]"
  let ?kc = "Tag ''td'' [] [NavigableString ''Site::'']"
  let ?vc = "Tag ''td'' [] [Element (Tag ''a'' [(''href'', ''http://x'')] [NavigableString ''here''])]"
  let ?ex = "Tag ''td'' [] [NavigableString ''extra'']"
  let ?r3 = "Tag ''tr'' [] [Element ?kc, Element ?vc, Element ?ex]"
  have cells: "find_all ''td'' ?r3 = ?kc # ?vc # [?ex] \<and> cell_value ?vc = Inr ''http://x''"
    by (simp add: find_all_def cell_value_def find_tag_def getitem_attr_def)
  from rows_loop_first_two_cells cells
  have "rows_loop ([?r2] @ ?r3 # []) [] =
      (case rows_loop [?r2] [] of
         Inl e \<Rightarrow> Inl e
       | Inr d1 \<Rightarrow> rows_loop [] (dict_setitem (rstrip_colon (get_text ?kc)) ''http://x'' d1))"
    by blast
  then show ?thesis
    by (simp add: find_all_def cell_value_def find_tag_def rstrip_colon_def dict_setitem_def)
qed

text \<open>
  The claim as it is written fails on both counts: the row of three cells of the first
  example page gives the entry \<open>Site\<close>, and the row of one cell of the second makes
  the parse fail with \<open>IndexError\<close>.
\<close>

theorem parse_rows_counterexample:
  "parse_soup (new_game ''g'' ''u'') example_detail_page =
     Inr \<lparr>game_id = ''g'', db_url = ''u'',
          info = [(''Author'', ''Bob''), (''Site'', ''http://x''),
            (''description'', ''<p>a &lt; b <b>c</b><br/></p><b>c</b><br/>'')]\<rparr>
   \<and> parse_soup (new_game ''g'' ''u'') example_short_row_page = Inl IndexError"
  by (simp add: example_detail_page_def example_rows_def example_short_row_page_def parse_eval)

text \<open>
  C3, as the code has it.  The loop visits the tags after the first \<open>Description\<close>
  heading \<open>h\<close> in document order, a tag inside another one being visited after it,
  and stops at the first stop heading it reaches; strings are not visited.  When the tags
  after \<open>h\<close> are the tags \<open>ns\<close>, none of them a stop heading, then a stop heading
  and the rest of the document, the value stored under \<open>description\<close> is the markup of
  the tags \<open>ns\<close>, concatenated in order, whenever the attribute table is read
  without error (otherwise the parse fails with the error of the table).  The markup of a
  tag holds all that is inside it, so a tag inside a visited tag is written again after
  it, and a stop heading inside a visited tag is written with that tag.
\<close>

theorem description_until_stop_heading:
  assumes "descendant_tags soup = pre @ h # ns @ stop # rest"
    and "\<forall>e\<in>set pre. \<not> is_description_heading e" and "is_description_heading h"
    and "\<forall>e\<in>set ns. \<not> is_stop_heading e" and "is_stop_heading stop"
  shows "parse_soup g soup =
       (case rows_loop (find_all ''tr'' soup) (info g) of
          Inl e \<Rightarrow> Inl e
        | Inr scraped \<Rightarrow>
            Inr (g\<lparr>info := dict_setitem ''description'' (concat (map markup ns)) scraped\<rparr>))
     \<and> (\<forall>scraped. rows_loop (find_all ''tr'' soup) (info g) = Inr scraped \<longrightarrow>
          (\<exists>g'. parse_soup g soup = Inr g'
             \<and> map_of (info g') ''description'' = Some (concat (map markup ns))))"
proof -
  have "find_located is_description_heading (descendant_tags soup) = Some (h, ns @ stop # rest)"
    using assms(1-3) by (simp add: find_located_first)
  moreover have "description_loop (h, ns @ stop # rest) [] = Inr (concat (map markup ns))"
    using description_loop_stop [OF assms(4,5), of h rest "[]"] by simp
  ultimately show ?thesis
    by (simp add: parse_soup_def map_of_dict_setitem split: sum.splits)
qed

theorem description_until_stop_heading_witness:
  "parse_soup (new_game ''g'' ''u'') example_detail_page =
     Inr \<lparr>game_id = ''g'', db_url = ''u'',
          info = dict_setitem ''description'' ''<p>a &lt; b <b>c</b><br/></p><b>c</b><br/>''
                   [(''Author'', ''Bob''), (''Site'', ''http://x'')]\<rparr>"
proof -
  let ?a = "Tag ''a'' [(''href'', ''http://x'')] [NavigableString ''here'']"
  let ?td1 = "Tag ''td'' [] [NavigableString ''Author:'']"
  let ?td2 = "Tag ''td'' [] [NavigableString ''Bob'']"
  let ?td3 = "Tag ''td'' [] [NavigableString ''Site::'']"
  let ?td4 = "Tag ''td'' [] [Element ?a]"
  let ?td5 = "Tag ''td'' [] [NavigableString ''extra'']"
  let ?tr1 = "Tag ''tr'' [] [Element ?td1, Element ?td2]"
  let ?tr2 = "Tag ''tr'' [] [Element ?td3, Element ?td4, Element ?td5]"
  let ?table = "Tag ''table'' [] [Element ?tr1, Element ?tr2]"
  let ?h = "Tag ''h2'' [] [NavigableString ''Description'']"
  let ?b = "Tag ''b'' [] [NavigableString ''c'']"
  let ?br = "Tag ''br'' [] []"
  let ?p = "Tag ''p'' [] [NavigableString ''a < b '', Element ?b, Element ?br]"
  let ?stop = "Tag ''h2'' [] [NavigableString ''Community'']"
  let ?after = "Tag ''p'' [] [NavigableString ''after'']"
  let ?body = "Tag ''body'' [] [Element ?table, Element ?h, Element ?p, Element ?stop, Element ?after]"
  let ?html = "Tag ''html'' [] [Element ?body]"
  let ?pre = "[?html, ?body, ?table, ?tr1, ?td1, ?td2, ?tr2, ?td3, ?td4, ?a, ?td5]"
  let ?g = "new_game ''g'' ''u''"
  have rows: "rows_loop (find_all ''tr'' example_detail_page) (info ?g)
      = Inr [(''Author'', ''Bob''), (''Site'', ''http://x'')]"
    by (simp add: example_detail_page_def example_rows_def parse_eval)
  have doc: "descendant_tags example_detail_page = ?pre @ ?h # [?p, ?b, ?br] @ ?stop # [?after]"
    by (simp add: example_detail_page_def example_rows_def)
  have pre: "\<forall>e\<in>set ?pre. \<not> is_description_heading e"
    by (simp add: is_description_heading_def)
  have h: "is_description_heading ?h"
    by (simp add: is_description_heading_def)
  have ns: "\<forall>e\<in>set [?p, ?b, ?br]. \<not> is_stop_heading e"
    by (simp add: is_stop_heading_def)
  have stop: "is_stop_heading ?stop"
    by (simp add: is_stop_heading_def)
  have m: "concat (map markup [?p, ?b, ?br]) = ''<p>a &lt; b <b>c</b><br/></p><b>c</b><br/>''"
    by (simp add: void_elements_def attrs_markup_def substitute_xml_def
        cdata_containing_tags_def)
  from description_until_stop_heading [OF doc pre h ns stop, of ?g]
  have e: "parse_soup ?g example_detail_page =
      Inr (?g\<lparr>info := dict_setitem ''description'' (concat (map markup [?p, ?b, ?br]))
             [(''Author'', ''Bob''), (''Site'', ''http://x'')]\<rparr>)"
    by (simp only: rows sum.case)
  show ?thesis
    unfolding e m by (simp add: new_game_def)
qed

text \<open>
  The claim as it is written fails on the page whose description is a \<open>div\<close> that
  holds a paragraph and the heading \<open>Admin\<close>, followed by the heading \<open>Community\<close>.
  One node stands between the \<open>Description\<close> heading and the next heading beside it,
  the \<open>div\<close>; the value stored is the markup of the \<open>div\<close>, in which the stop heading
  \<open>Admin\<close> is written, followed by the markup of the paragraph a second time.
\<close>

theorem description_nested_counterexample:
  "parse_soup (new_game ''g'' ''u'') example_nested_stop_page =
     Inr \<lparr>game_id = ''g'', db_url = ''u'',
          info = [(''description'', ''<div><p>x</p><h2>Admin</h2></div><p>x</p>'')]\<rparr>
   \<and> markup (Tag ''div'' [] [
         Element (Tag ''p'' [] [NavigableString ''x'']),
         Element (Tag ''h2'' [] [NavigableString ''Admin''])]) = ''<div><p>x</p><h2>Admin</h2></div>''
   \<and> is_stop_heading (Tag ''h2'' [] [NavigableString ''Admin''])"
  by (simp add: example_nested_stop_page_def parse_eval)

text \<open>
  C8.  A page without a heading whose text is \<open>Description\<close> makes \<open>parse_soup\<close>
  fail.  The code has no exception class of its own: the failure is the
  \<open>AttributeError\<close> of \<^verbatim>\<open>None.findNext\<close>, unless the attribute table has failed
  before (\<open>IndexError\<close>, \<open>KeyError\<close>).  In the main loop the failure is caught: the
  database is left as it was, the error is counted, and the loop goes on with the next
  item, or stops in order when the count is above 5.
\<close>

theorem parse_without_description_heading:
  assumes "\<forall>e\<in>set (descendant_tags soup). is_heading e \<longrightarrow> get_text e \<noteq> ''Description''"
  shows "(\<exists>e. parse_soup g soup = Inl e \<and> (e = AttributeError \<or> e = IndexError \<or> e = KeyError)
            \<and> ((\<exists>scraped. rows_loop (find_all ''tr'' soup) (info g) = Inr scraped)
                 \<longrightarrow> e = AttributeError))
     \<and> (http_get (db_url g) = Inr soup \<longrightarrow>
          crawl http_get (g # gs) errors ag =
            (if errors + 1 > 5 then (ag, errors + 1, gs)
             else crawl http_get gs (errors + 1) ag))"
proof -
  have "\<not> is_description_heading e" if "e \<in> set (descendant_tags soup)" for e
    using that assms tag_string_get_text(1) [of e "''Description''"]
    by (auto simp: is_description_heading_def is_heading_def)
  then have none: "find_located is_description_heading (descendant_tags soup) = None"
    by (simp add: find_located_None)
  have fail: "\<exists>e. parse_soup g soup = Inl e \<and> (e = AttributeError \<or> e = IndexError \<or> e = KeyError)
            \<and> ((\<exists>scraped. rows_loop (find_all ''tr'' soup) (info g) = Inr scraped)
                 \<longrightarrow> e = AttributeError)"
  proof (cases "rows_loop (find_all ''tr'' soup) (info g)")
    case (Inl e)
    then show ?thesis
      using rows_loop_error [OF Inl] by (auto simp: parse_soup_def)
  next
    case (Inr scraped)
    then show ?thesis
      using none by (simp add: parse_soup_def)
  qed
  then obtain e where e: "parse_soup g soup = Inl e" "e \<noteq> KeyboardInterrupt"
    by auto
  have "crawl http_get (g # gs) errors ag =
            (if errors + 1 > 5 then (ag, errors + 1, gs)
             else crawl http_get gs (errors + 1) ag)"
    if "http_get (db_url g) = Inr soup"
    using process_item_parse_error [of http_get g soup e ag] that e by simp
  with fail show ?thesis by blast
qed

theorem parse_without_description_heading_witness:
  "parse_soup (new_game ''g'' ''u'') example_no_description_page = Inl AttributeError
   \<and> crawl (\<lambda>u. Inr example_no_description_page) [new_game ''g'' ''u''] 0
       \<lparr>games = [new_game ''g'' ''u''], games_json = [], html = None, url = None\<rparr>
     = (\<lparr>games = [new_game ''g'' ''u''], games_json = [], html = None, url = None\<rparr>, 1, [])"
proof -
  let ?g = "new_game ''g'' ''u''"
  let ?ag = "\<lparr>games = [?g], games_json = [], html = None, url = None\<rparr>"
  let ?get = "\<lambda>u::string. (Inr example_no_description_page :: py_error + tag)"
  have hyp: "\<forall>e\<in>set (descendant_tags example_no_description_page).
      is_heading e \<longrightarrow> get_text e \<noteq> ''Description''"
    by (simp add: example_no_description_page_def example_rows_def is_heading_def)
  have rows: "\<exists>scraped. rows_loop (find_all ''tr'' example_no_description_page) (info ?g) = Inr scraped"
    by (simp add: example_no_description_page_def example_rows_def parse_eval)
  have get: "?get (db_url ?g) = Inr example_no_description_page" by simp
  from parse_without_description_heading [OF hyp, of ?g ?get "[]" 0 ?ag] rows get
  show ?thesis by auto
qed

section \<open>The listing page\<close>

lemma options_loop_values:
  "map (\<lambda>opt. map_of (attrs opt) ''value'') options = map Some vs \<Longrightarrow>
   options_loop urljoin u db_base options gs =
     Inr (gs @ map (\<lambda>i. new_game i (detail_url urljoin u db_base i))
                  (filter (\<lambda>i. i \<noteq> ''Select'') vs))"
proof (induction options arbitrary: vs gs)
  case Nil
  then show ?case by simp
next
  case (Cons opt options)
  then obtain v vs' where vs: "vs = v # vs'" "map_of (attrs opt) ''value'' = Some v"
      "map (\<lambda>opt. map_of (attrs opt) ''value'') options = map Some vs'"
    by (cases vs) auto
  from Cons.IH [OF vs(3)] vs(1,2) show ?case
    by (simp add: getitem_attr_def)
qed

text \<open>
  C4, as the code has it.  A valid listing is a document with the form \<open>SelfSubmit\<close>,
  which has an \<open>action\<close>, and whose options all have a \<open>value\<close>; \<open>vs\<close> are these
  values in document order.  \<open>AgDB_parse\<close> appends one game for every value that is not
  \<open>Select\<close>, in that order, so \<open>N\<close> games for \<open>N\<close> such options.  The URL of a game
  is the form's \<open>action\<close> followed by \<open>&id=\<close> and the identifier (percent-encoded); it
  is given to \<open>urljoin\<close> with the URL of the listing exactly when it does not start with
  the four characters \<open>http\<close>, whether it is absolute or not.
\<close>

theorem AgDB_parse_lists_options:
  assumes "(case html_arg of Some h \<Rightarrow> Some h | None \<Rightarrow> html ag) = Some soup"
    and "find_form soup = Some form"
    and "map_of (attrs form) ''action'' = Some db_base"
    and "map (\<lambda>opt. map_of (attrs opt) ''value'') (find_all ''option'' form) = map Some vs"
  shows "AgDB_parse urljoin ag html_arg =
       Inr (ag\<lparr>games := games ag @
              map (\<lambda>i. new_game i (detail_url urljoin (url ag) db_base i))
                (filter (\<lambda>i. i \<noteq> ''Select'') vs)\<rparr>)
     \<and> (\<forall>i. detail_url urljoin (url ag) db_base i =
          (if startswith_http (db_base @ ''&id='' @ quote_plus i)
           then db_base @ ''&id='' @ quote_plus i
           else urljoin (url ag) (db_base @ ''&id='' @ quote_plus i)))"
  using assms options_loop_values [OF assms(4), of urljoin "url ag" db_base "games ag"]
  by (simp add: AgDB_parse_def getitem_attr_def detail_url_def urlencode_id_def)

theorem AgDB_parse_lists_options_witness:
  "AgDB_parse example_urljoin
     \<lparr>games = [], games_json = [], html = None, url = Some ''https://audiogames.net/''\<rparr>
     (Some (Tag ''[document]'' [] [
        Element (Tag ''form'' [(''id'', ''SelfSubmit''), (''action'', ''dbgame.php?x=1'')] [
          Element (Tag ''option'' [(''value'', ''Select'')] [NavigableString ''Select a game'']),
          Element (Tag ''option'' [(''value'', ''a b'')] [NavigableString ''A B'']),
          Element (Tag ''option'' [(''value'', ''g2'')] [NavigableString ''G2''])])]))
   = Inr \<lparr>games =
           [\<lparr>game_id = ''a b'', db_url = ''https://audiogames.net/dbgame.php?x=1&id=a+b'', info = []\<rparr>,
            \<lparr>game_id = ''g2'', db_url = ''https://audiogames.net/dbgame.php?x=1&id=g2'', info = []\<rparr>],
          games_json = [], html = None, url = Some ''https://audiogames.net/''\<rparr>"
proof -
  let ?o1 = "Tag ''option'' [(''value'', ''Select'')] [NavigableString ''Select a game'']"
  let ?o2 = "Tag ''option'' [(''value'', ''a b'')] [NavigableString ''A B'']"
  let ?o3 = "Tag ''option'' [(''value'', ''g2'')] [NavigableString ''G2'']"
  let ?form = "Tag ''form'' [(''id'', ''SelfSubmit''), (''action'', ''dbgame.php?x=1'')]
      [Element ?o1, Element ?o2, Element ?o3]"
  let ?soup = "Tag ''[document]'' [] [Element ?form]"
  let ?ag = "\<lparr>games = [], games_json = [], html = None, url = Some ''https://audiogames.net/''\<rparr>"
  have soup: "(case Some ?soup of Some h \<Rightarrow> Some h | None \<Rightarrow> html ?ag) = Some ?soup" by simp
  have form: "find_form ?soup = Some ?form" by (simp add: find_form_def)
  have action: "map_of (attrs ?form) ''action'' = Some ''dbgame.php?x=1''" by simp
  have vals: "map (\<lambda>opt. map_of (attrs opt) ''value'') (find_all ''option'' ?form)
      = map Some [''Select'', ''a b'', ''g2'']"
    by (simp add: find_all_def)
  from AgDB_parse_lists_options [OF soup form action vals, of example_urljoin]
  show ?thesis
    by (simp add: detail_url_def urlencode_id_def quote_plus_def always_safe_def hex_digit_def
        startswith_http_def example_urljoin_def new_game_def)
qed

text \<open>
  The claim as it is written fails for a form whose \<open>action\<close> is the relative URL
  \<open>http_db.php?x=1\<close>: the URL of the game is not absolute, and it is left as it is,
  where resolving it against the URL of the listing gives another URL.
\<close>

theorem AgDB_parse_relative_counterexample:
  "AgDB_parse example_urljoin
     \<lparr>games = [], games_json = [], html = None, url = Some ''https://audiogames.net/''\<rparr>
     (Some (Tag ''[document]'' [] [
        Element (Tag ''form'' [(''id'', ''SelfSubmit''), (''action'', ''http_db.php?x=1'')] [
          Element (Tag ''option'' [(''value'', ''g1'')] [NavigableString ''G1''])])]))
   = Inr \<lparr>games = [\<lparr>game_id = ''g1'', db_url = ''http_db.php?x=1&id=g1'', info = []\<rparr>],
          games_json = [], html = None, url = Some ''https://audiogames.net/''\<rparr>
   \<and> \<not> spec_is_absolute_url ''http_db.php?x=1&id=g1''
   \<and> example_urljoin (Some ''https://audiogames.net/'') ''http_db.php?x=1&id=g1''
       = ''https://audiogames.net/http_db.php?x=1&id=g1''"
  by (simp add: listing_eval spec_is_absolute_url_def)

section \<open>The main loop\<close>










end
